theory Spec2Isabelle
  imports Main
begin

section \<open>The Analytics class of src/src/csvAnalytics.ts (AMZ Analytics module)\<close>

text \<open>
  The module batches analytics events in a queue and posts them to an endpoint.
  It runs on the single-threaded JavaScript event loop: every handler (a call of a
  public method, a timer callback, the continuation of an \<open>await\<close>) runs to its next
  \<open>await\<close> without interruption. The embedding therefore has one function per
  handler, over a record that holds the fields of the class together with the suspended
  \<open>sendBatch\<close> invocations and the log of the requests issued so far.
\<close>

subsection \<open>Values\<close>

text \<open>
  JavaScript values as far as the module handles them. Numbers are opaque payloads here
  (the module never computes on an event's value), so they are integers.
\<close>

datatype jsval =
    JUndefined
  | JNull
  | JBool bool
  | JNum int
  | JStr string
  | JArr "jsval list"
  | JObj "(string \<times> jsval) list"

text \<open>\<open>DeviceContext\<close> and \<open>AnalyticsEvent\<close> are objects with an index signature
  \<open>[key: string]: any\<close>: maps from property names to values.\<close>

type_synonym DeviceContext = "string \<rightharpoonup> jsval"
type_synonym AnalyticsEvent = "string \<rightharpoonup> jsval"

text \<open>The exceptions the module meets: \<open>JSON.parse\<close> throws a SyntaxError,
  \<open>sendBatch\<close> throws an Error for a response that is not ok, \<open>fetch\<close> rejects
  with a TypeError. The module catches each of them where it arises.\<close>

datatype error = SyntaxError | HttpError | TypeError

text \<open>\<open>AnalyticsConfig\<close> as the caller passes it: \<open>None\<close> is a property that is
  \<open>undefined\<close>. TypeScript requires \<open>endpoint\<close> at compile time only; at run time
  the property can be missing (MIGRATION.md passes \<open>import.meta.env.VITE_ANALYTICS_ENDPOINT\<close>).\<close>

record AnalyticsConfig =
  endpoint :: "string option"
  enabled :: "bool option"
  batchSize :: "int option"
  batchTimeout :: "int option"
  maxRetries :: "int option"
  deviceContext :: "DeviceContext option"

text \<open>\<open>this.config\<close>: the configuration after the defaults are filled in.\<close>

record config =
  cfg_endpoint :: "string option"
  cfg_enabled :: bool
  cfg_batchSize :: int
  cfg_batchTimeout :: int
  cfg_maxRetries :: int
  cfg_context :: DeviceContext

text \<open>The ambient browser environment a handler reads.\<close>

record env =
  JSON_parse :: "string \<Rightarrow> jsval option"  \<comment> \<open>\<open>None\<close>: \<open>JSON.parse\<close> throws\<close>
  Date_now :: nat
  Math_random36 :: string  \<comment> \<open>\<open>Math.random().toString(36).substring(2, 11)\<close>\<close>
  navigator_userAgent :: "string option"  \<comment> \<open>\<open>None\<close>: \<open>navigator\<close> is undefined\<close>
  has_sendBeacon :: bool
  has_window :: bool
  has_document :: bool

subsection \<open>Suspended sends and the request log\<close>

text \<open>
  A call \<open>sendBatch(batch, retryCount)\<close> suspends at \<open>await fetch(...)\<close> and, after a
  failure, at the \<open>await\<close> of the backoff timer. Its caller is either \<open>flush\<close>, whose
  \<open>finally\<close> block runs when the call returns, or the loop of
  \<open>retryFailedBatches\<close>, which then goes on with the batches left.
\<close>

datatype phase = AwaitingFetch | AwaitingDelay nat

datatype caller = ByFlush | ByRetryFailedBatches "AnalyticsEvent list list"

record send =
  batch :: "AnalyticsEvent list"
  retryCount :: nat
  phase :: phase
  caller :: caller

datatype transport = Fetch | Beacon | SyncXHR

datatype origin = FromQueue | FromArchive

record request =
  via :: transport
  url :: "string option"
  body :: "AnalyticsEvent list"
  attempt :: nat  \<comment> \<open>the \<open>retryCount\<close> of the \<open>sendBatch\<close> call that issued it\<close>
  origin :: origin  \<comment> \<open>whether the batch was taken from the queue or from \<open>failedBatches\<close>\<close>

datatype fetch_outcome = Resolved bool  \<comment> \<open>\<open>response.ok\<close>\<close> | Rejected

record analytics =
  config :: config
  eventQueue :: "AnalyticsEvent list"
  sessionId :: string
  flushTimer :: "int option"  \<comment> \<open>the period of the armed interval\<close>
  isFlushingInProgress :: bool
  failedBatches :: "AnalyticsEvent list list"
  unloadHandlers :: bool  \<comment> \<open>the \<open>pagehide\<close> and \<open>beforeunload\<close> listeners\<close>
  visibilityHandler :: bool
  pending :: "nat \<rightharpoonup> send"  \<comment> \<open>the suspended \<open>sendBatch\<close> calls\<close>
  nextId :: nat
  requests :: "request list"  \<comment> \<open>every request issued, oldest first\<close>

subsection \<open>Construction\<close>

text \<open>The decimal numeral of the template literal \<open>`${timestamp}-${random}`\<close>.\<close>

definition digit :: "nat \<Rightarrow> char" where
  "digit n = ''0123456789'' ! (n mod 10)"

fun decimal :: "nat \<Rightarrow> string" where
  "decimal n = (if n < 10 then [digit n] else decimal (n div 10) @ [digit (n mod 10)])"

declare decimal.simps [simp del]

definition generateSessionId :: "env \<Rightarrow> string" where
  "generateSessionId e = decimal (Date_now e) @ ''-'' @ Math_random36 e"

definition startFlushTimer :: "analytics \<Rightarrow> analytics" where
  "startFlushTimer w = w\<lparr>flushTimer := Some (cfg_batchTimeout (config w))\<rparr>"

definition setupUnloadHandler :: "env \<Rightarrow> analytics \<Rightarrow> analytics" where
  "setupUnloadHandler e w =
     (if \<not> has_window e then w
      else w\<lparr>unloadHandlers := True,
             visibilityHandler := (if has_document e then True else visibilityHandler w)\<rparr>)"

definition resolve :: "AnalyticsConfig \<Rightarrow> config" where
  "resolve c =
     \<lparr>cfg_endpoint = endpoint c,
      cfg_enabled = (case enabled c of None \<Rightarrow> True | Some b \<Rightarrow> b),
      cfg_batchSize = (case batchSize c of None \<Rightarrow> 25 | Some n \<Rightarrow> n),
      cfg_batchTimeout = (case batchTimeout c of None \<Rightarrow> 30000 | Some n \<Rightarrow> n),
      cfg_maxRetries = (case maxRetries c of None \<Rightarrow> 3 | Some n \<Rightarrow> n),
      cfg_context = (case deviceContext c of None \<Rightarrow> Map.empty | Some d \<Rightarrow> d)\<rparr>"

text \<open>The constructor has no \<open>throw\<close> and calls nothing that throws: every path returns
  the instance.\<close>

definition Analytics_new :: "env \<Rightarrow> AnalyticsConfig \<Rightarrow> error + analytics" where
  "Analytics_new e c =
     (let w = \<lparr>config = resolve c, eventQueue = [], sessionId = generateSessionId e,
                flushTimer = None, isFlushingInProgress = False, failedBatches = [],
                unloadHandlers = False, visibilityHandler = False,
                pending = Map.empty, nextId = 0, requests = []\<rparr>
      in Inr (if cfg_enabled (config w) then setupUnloadHandler e (startFlushTimer w) else w))"

subsection \<open>sendBatch\<close>

text \<open>The synchronous prefix of \<open>sendBatch\<close>: the \<open>fetch\<close> call, up to its \<open>await\<close>.
  The invocation is kept under the identifier \<open>i\<close>; a retry (the tail call
  \<open>return this.sendBatch(batch, retryCount + 1)\<close>) keeps the identifier of the call it
  continues.\<close>

definition origin_of :: "caller \<Rightarrow> origin" where
  "origin_of c = (case c of ByFlush \<Rightarrow> FromQueue | ByRetryFailedBatches _ \<Rightarrow> FromArchive)"

definition sendBatch :: "nat \<Rightarrow> caller \<Rightarrow> AnalyticsEvent list \<Rightarrow> nat \<Rightarrow> analytics \<Rightarrow> analytics" where
  "sendBatch i c b n w =
     w\<lparr>pending := (pending w)(i \<mapsto> \<lparr>batch = b, retryCount = n, phase = AwaitingFetch, caller = c\<rparr>),
       requests := requests w @
         [\<lparr>via = Fetch, url = cfg_endpoint (config w), body = b, attempt = n, origin = origin_of c\<rparr>]\<rparr>"

definition sendBatch_new :: "caller \<Rightarrow> AnalyticsEvent list \<Rightarrow> analytics \<Rightarrow> analytics" where
  "sendBatch_new c b w = sendBatch (nextId w) c b 0 (w\<lparr>nextId := Suc (nextId w)\<rparr>)"

text \<open>What the caller does once its \<open>await this.sendBatch(batch)\<close> returns: the
  \<open>finally\<close> block of \<open>flush\<close>, or the next round of the loop of
  \<open>retryFailedBatches\<close>. Only promise jobs separate the return of \<open>sendBatch\<close>
  from this continuation, so it runs in the step in which the send completes.\<close>

fun resume :: "caller \<Rightarrow> analytics \<Rightarrow> analytics" where
  "resume ByFlush w = w\<lparr>isFlushingInProgress := False\<rparr>"
| "resume (ByRetryFailedBatches []) w = w"
| "resume (ByRetryFailedBatches (b # bs)) w = sendBatch_new (ByRetryFailedBatches bs) b w"

text \<open>The continuation of \<open>await fetch(...)\<close> in the invocation \<open>i\<close>.\<close>

definition fetchSettled :: "nat \<Rightarrow> fetch_outcome \<Rightarrow> analytics \<Rightarrow> analytics" where
  "fetchSettled i r w =
     (case pending w i of
        None \<Rightarrow> w
      | Some t \<Rightarrow>
          (case phase t of
             AwaitingDelay d \<Rightarrow> w
           | AwaitingFetch \<Rightarrow>
               if r = Resolved True
               then resume (caller t) (w\<lparr>pending := (pending w)(i := None)\<rparr>)
               else if int (retryCount t) < cfg_maxRetries (config w)
               then w\<lparr>pending := (pending w)(i \<mapsto> t\<lparr>phase := AwaitingDelay (2 ^ retryCount t * 1000)\<rparr>)\<rparr>
               else resume (caller t)
                      (w\<lparr>failedBatches := failedBatches w @ [batch t],
                         pending := (pending w)(i := None)\<rparr>)))"

text \<open>The continuation of the backoff \<open>await\<close> in the invocation \<open>i\<close>.\<close>

definition delayElapsed :: "nat \<Rightarrow> analytics \<Rightarrow> analytics" where
  "delayElapsed i w =
     (case pending w i of
        None \<Rightarrow> w
      | Some t \<Rightarrow>
          (case phase t of
             AwaitingFetch \<Rightarrow> w
           | AwaitingDelay d \<Rightarrow> sendBatch i (caller t) (batch t) (retryCount t + 1) w))"

subsection \<open>flush, flushSync and the administrative operations\<close>

definition flush :: "analytics \<Rightarrow> analytics" where
  "flush w =
     (if eventQueue w = [] \<or> isFlushingInProgress w then w
      else sendBatch_new ByFlush (eventQueue w) (w\<lparr>isFlushingInProgress := True, eventQueue := []\<rparr>))"

definition flushSync :: "env \<Rightarrow> analytics \<Rightarrow> analytics" where
  "flushSync e w =
     (if eventQueue w = [] then w
      else w\<lparr>eventQueue := [],
             requests := requests w @
               [\<lparr>via = (if navigator_userAgent e \<noteq> None \<and> has_sendBeacon e then Beacon else SyncXHR),
                 url = cfg_endpoint (config w), body = eventQueue w, attempt = 0,
                 origin = FromQueue\<rparr>]\<rparr>)"

definition retryFailedBatches :: "analytics \<Rightarrow> analytics" where
  "retryFailedBatches w =
     resume (ByRetryFailedBatches (failedBatches w)) (w\<lparr>failedBatches := []\<rparr>)"

definition clear :: "analytics \<Rightarrow> analytics" where
  "clear w = w\<lparr>eventQueue := [], failedBatches := []\<rparr>"

definition destroy :: "analytics \<Rightarrow> analytics" where
  "destroy w = flush (w\<lparr>flushTimer := None\<rparr>)"

subsection \<open>trackEvent\<close>

datatype attributes_arg =
    NoAttributes  \<comment> \<open>\<open>undefined\<close>\<close>
  | StringAttributes string
  | RecordAttributes "(string \<times> jsval) list"

text \<open>Lines 504 to 516: \<open>if (attributes)\<close> is false for \<open>undefined\<close> and for the empty
  string, true for every other string and for every object.\<close>

definition parsedAttributes :: "env \<Rightarrow> attributes_arg \<Rightarrow> jsval" where
  "parsedAttributes e a =
     (case a of
        NoAttributes \<Rightarrow> JObj []
      | StringAttributes s \<Rightarrow>
          if s = [] then JObj []
          else (case JSON_parse e s of Some v \<Rightarrow> v | None \<Rightarrow> JObj [(''raw'', JStr s)])
      | RecordAttributes r \<Rightarrow> JObj r)"

definition optional :: "('a \<Rightarrow> jsval) \<Rightarrow> 'a option \<Rightarrow> jsval" where
  "optional f x = (case x of None \<Rightarrow> JUndefined | Some v \<Rightarrow> f v)"

text \<open>Lines 519 to 531: the object literal; the spread of \<open>this.config.context\<close> comes
  last.\<close>

definition make_event ::
  "env \<Rightarrow> analytics \<Rightarrow> string \<Rightarrow> int option \<Rightarrow> string option \<Rightarrow> attributes_arg \<Rightarrow> string option
     \<Rightarrow> AnalyticsEvent" where
  "make_event e w metricName val contentId attributes experimentGroup =
     [''timestamp'' \<mapsto> JNum (int (Date_now e)),
      ''metricName'' \<mapsto> JStr metricName,
      ''value'' \<mapsto> optional JNum val,
      ''contentId'' \<mapsto> optional JStr contentId,
      ''attributes'' \<mapsto> parsedAttributes e attributes,
      ''experimentGroup'' \<mapsto> optional JStr experimentGroup,
      ''sessionId'' \<mapsto> JStr (sessionId w),
      ''userAgent'' \<mapsto> JStr (case navigator_userAgent e of Some u \<Rightarrow> u | None \<Rightarrow> ''unknown'')]
     ++ cfg_context (config w)"

definition trackEvent ::
  "env \<Rightarrow> string \<Rightarrow> int option \<Rightarrow> string option \<Rightarrow> attributes_arg \<Rightarrow> string option
     \<Rightarrow> analytics \<Rightarrow> analytics" where
  "trackEvent e metricName val contentId attributes experimentGroup w =
     (if \<not> cfg_enabled (config w) then w
      else
        let w1 = w\<lparr>eventQueue := eventQueue w @
                     [make_event e w metricName val contentId attributes experimentGroup]\<rparr>
        in if int (length (eventQueue w1)) \<ge> cfg_batchSize (config w1) then flush w1 else w1)"

subsection \<open>The event loop\<close>

datatype action =
    TrackEvent string "int option" "string option" attributes_arg "string option"
  | Flush
  | TimerTick  \<comment> \<open>the \<open>setInterval\<close> callback\<close>
  | PageHide
  | BeforeUnload
  | VisibilityHidden
  | FetchSettled nat fetch_outcome
  | DelayElapsed nat
  | RetryFailedBatches
  | Clear
  | Destroy

fun step :: "env \<Rightarrow> action \<Rightarrow> analytics \<Rightarrow> analytics" where
  "step e (TrackEvent m v c a g) w = trackEvent e m v c a g w"
| "step e Flush w = flush w"
| "step e TimerTick w =
     (if flushTimer w \<noteq> None \<and> eventQueue w \<noteq> [] then flush w else w)"
| "step e PageHide w = (if unloadHandlers w then flushSync e w else w)"
| "step e BeforeUnload w = (if unloadHandlers w then flushSync e w else w)"
| "step e VisibilityHidden w = (if visibilityHandler w then flush w else w)"
| "step e (FetchSettled i r) w = fetchSettled i r w"
| "step e (DelayElapsed i) w = delayElapsed i w"
| "step e RetryFailedBatches w = retryFailedBatches w"
| "step e Clear w = clear w"
| "step e Destroy w = destroy w"

fun run :: "(env \<times> action) list \<Rightarrow> analytics \<Rightarrow> analytics" where
  "run [] w = w"
| "run ((e, a) # tr) w = run tr (step e a w)"

inductive reachable :: "analytics \<Rightarrow> bool" where
  created: "Analytics_new e c = Inr w \<Longrightarrow> reachable w"
| stepped: "reachable w \<Longrightarrow> reachable (step e a w)"

subsection \<open>Observations\<close>

text \<open>The event \<open>ev\<close> went through \<open>this.eventQueue.push(event)\<close> between \<open>w\<close> and
  \<open>w'\<close>: it is the last element of the queue, or the size trigger has already moved
  the queue, with \<open>ev\<close> as its last element, into the body of a new request.\<close>

definition enqueued_as :: "analytics \<Rightarrow> analytics \<Rightarrow> AnalyticsEvent \<Rightarrow> bool" where
  "enqueued_as w w' ev \<longleftrightarrow>
     eventQueue w' = eventQueue w @ [ev] \<or>
     (eventQueue w' = [] \<and>
      requests w' = requests w @
        [\<lparr>via = Fetch, url = cfg_endpoint (config w), body = eventQueue w @ [ev], attempt = 0,
          origin = FromQueue\<rparr>])"

text \<open>A send running on its own: the invocation \<open>i\<close> of \<open>sendBatch\<close> receives the
  outcomes of its successive \<open>fetch\<close> calls; after each outcome the backoff timer it
  may have set fires. No other handler runs in between.\<close>

fun attempts :: "nat \<Rightarrow> fetch_outcome list \<Rightarrow> analytics \<Rightarrow> analytics" where
  "attempts i [] w = w"
| "attempts i (r # rs) w = attempts i rs (delayElapsed i (fetchSettled i r w))"

text \<open>A failed attempt: the response is not ok, or \<open>fetch\<close> rejected.\<close>

definition failure :: "fetch_outcome \<Rightarrow> bool" where
  "failure r \<longleftrightarrow> r \<noteq> Resolved True"

definition retry_request :: "analytics \<Rightarrow> AnalyticsEvent list \<Rightarrow> caller \<Rightarrow> nat \<Rightarrow> request" where
  "retry_request w b c k =
     \<lparr>via = Fetch, url = cfg_endpoint (config w), body = b, attempt = k, origin = origin_of c\<rparr>"

text \<open>What the guard of \<open>flush\<close> maintains: identifiers of suspended sends are below
  \<open>nextId\<close>; while a send started by \<open>flush\<close> is suspended,
  \<open>isFlushingInProgress\<close> is set; and at most one such send exists.\<close>

definition flush_guarded :: "analytics \<Rightarrow> bool" where
  "flush_guarded w \<longleftrightarrow>
     (\<forall>i t. pending w i = Some t \<longrightarrow> i < nextId w) \<and>
     (\<forall>i t. pending w i = Some t \<longrightarrow> caller t = ByFlush \<longrightarrow> isFlushingInProgress w) \<and>
     (\<forall>i j t u. pending w i = Some t \<longrightarrow> pending w j = Some u \<longrightarrow>
        caller t = ByFlush \<longrightarrow> caller u = ByFlush \<longrightarrow> i = j)"

text \<open>The events of the batches taken out of the queue so far, in the order taken: the
  bodies of the first requests (\<open>retryCount = 0\<close>) for batches that come from the
  queue. Retries and replays of archived batches repeat a body and are left out.\<close>

definition extracted :: "request list \<Rightarrow> AnalyticsEvent list" where
  "extracted qs = concat (map body (filter (\<lambda>q. origin q = FromQueue \<and> attempt q = 0) qs))"

definition ledger :: "analytics \<Rightarrow> AnalyticsEvent list" where
  "ledger w = extracted (requests w) @ eventQueue w"

text \<open>The events that the \<open>trackEvent\<close> calls of a run push, in call order.\<close>

fun tracked :: "(env \<times> action) list \<Rightarrow> analytics \<Rightarrow> AnalyticsEvent list" where
  "tracked [] w = []"
| "tracked ((e, TrackEvent m v c a g) # tr) w =
     (if cfg_enabled (config w) then [make_event e w m v c a g] else [])
     @ tracked tr (step e (TrackEvent m v c a g) w)"
| "tracked ((e, x) # tr) w = tracked tr (step e x w)"

subsection \<open>Concrete instances\<close>

text \<open>A browser for the concrete runs below. Its \<open>JSON_parse\<close> stands in for
  \<open>JSON.parse\<close> on the strings those runs pass: \<open>{}\<close> is the empty object, and the
  empty string and \<open>{bad json\<close> are rejected with a SyntaxError, as \<open>JSON.parse\<close>
  rejects them.\<close>

definition browser :: env where
  "browser =
     \<lparr>JSON_parse = (\<lambda>s. if s = ''{}'' then Some (JObj []) else None),
      Date_now = 1700000000000, Math_random36 = ''k3j9x0q2a'',
      navigator_userAgent = Some ''Mozilla/5.0'', has_sendBeacon = True,
      has_window = True, has_document = True\<rparr>"

definition defaults :: AnalyticsConfig where
  "defaults =
     \<lparr>endpoint = Some ''https://api.example/events'', enabled = None, batchSize = None,
      batchTimeout = None, maxRetries = None, deviceContext = None\<rparr>"

definition small_batches :: AnalyticsConfig where
  "small_batches = defaults\<lparr>batchSize := Some 2\<rparr>"

definition instance_of :: "AnalyticsConfig \<Rightarrow> analytics" where
  "instance_of c = projr (Analytics_new browser c)"

definition track :: "string \<Rightarrow> env \<times> action" where
  "track name = (browser, TrackEvent name None None NoAttributes None)"

text \<open>The instance built from the default configuration after one \<open>trackEvent\<close> and a
  \<open>flush\<close>: the batch of one event is in flight as invocation 0.\<close>

definition click :: AnalyticsEvent where
  "click = make_event browser (instance_of defaults) ''Click'' None None NoAttributes None"

definition in_flight :: analytics where
  "in_flight = flush (trackEvent browser ''Click'' None None NoAttributes None (instance_of defaults))"

text \<open>The same batch after its first attempt has failed: it waits out the first backoff
  delay.\<close>

definition backing_off :: analytics where
  "backing_off = fetchSettled 0 Rejected in_flight"

section \<open>Properties\<close>

subsection \<open>Construction and clear\<close>

lemma instance_of_simps:
  "config (instance_of c) = resolve c"
  "eventQueue (instance_of c) = []"
  "isFlushingInProgress (instance_of c) = False"
  "failedBatches (instance_of c) = []"
  "pending (instance_of c) = Map.empty"
  "nextId (instance_of c) = 0"
  "requests (instance_of c) = []"
  by (simp_all add: instance_of_def Analytics_new_def Let_def setupUnloadHandler_def startFlushTimer_def)

text \<open>
  Claim C8: \<open>clear()\<close> empties the pending event queue as well as the failed-batch
  archive: in every state, after \<open>clear()\<close> the queue is empty, its length is 0 and
  \<open>failedBatches\<close> is empty.
\<close>

theorem clear_empties_queue_and_archive:
  "eventQueue (clear w) = [] \<and> length (eventQueue (clear w)) = 0 \<and> failedBatches (clear w) = []"
  by (simp add: clear_def)

text \<open>
  Claim C5 says that the constructor raises when the configuration has no endpoint. It
  does not: the constructor never inspects \<open>config.endpoint\<close>, and on the default
  configuration with the endpoint removed it returns an instance.
\<close>

theorem constructor_missing_endpoint_counterexample:
  "\<not> isl (Analytics_new browser (defaults\<lparr>endpoint := None\<rparr>))"
  by (simp add: Analytics_new_def Let_def)

text \<open>
  Claim C5, amended: constructing an instance from a configuration whose endpoint is
  missing does not raise; the constructor returns an instance whose
  \<open>config.endpoint\<close> is missing.
\<close>

theorem constructor_never_raises:
  "\<exists>w. Analytics_new e (c\<lparr>endpoint := None\<rparr>) = Inr w \<and> cfg_endpoint (config w) = None"
  by (simp add: Analytics_new_def Let_def resolve_def setupUnloadHandler_def startFlushTimer_def)

subsection \<open>Building and enqueuing an event\<close>

lemma trackEvent_enqueues:
  "cfg_enabled (config w) \<Longrightarrow>
   enqueued_as w (trackEvent e m v c a g w) (make_event e w m v c a g)"
  by (simp add: enqueued_as_def trackEvent_def Let_def flush_def sendBatch_new_def sendBatch_def origin_of_def)

lemma make_event_context:
  "cfg_context (config w) k = Some x \<Longrightarrow> make_event e w m v c a g k = Some x"
  by (simp add: make_event_def map_add_Some_iff)

lemma make_event_attributes:
  "cfg_context (config w) ''attributes'' = None \<Longrightarrow>
   make_event e w m v c a g ''attributes'' = Some (parsedAttributes e a)"
  by (simp add: make_event_def map_add_def)

text \<open>
  Claim C9: the context is merged last, so on an enabled instance every key \<open>k\<close> of
  \<open>config.context\<close>, and so every key that collides with one of the reserved names
  \<open>timestamp\<close>, \<open>metricName\<close>, \<open>value\<close>, \<open>contentId\<close>, \<open>attributes\<close>,
  \<open>experimentGroup\<close>, \<open>sessionId\<close>, \<open>userAgent\<close>, has the context's value in the
  event that \<open>trackEvent\<close> builds and enqueues.
\<close>

theorem context_overwrites_reserved_fields:
  "cfg_enabled (config w) \<Longrightarrow> cfg_context (config w) k = Some x \<Longrightarrow>
   make_event e w m v c a g k = Some x \<and>
   enqueued_as w (trackEvent e m v c a g w) (make_event e w m v c a g)"
  by (simp add: make_event_context trackEvent_enqueues)

text \<open>The theorem of C9 at a context that redefines \<open>metricName\<close>.\<close>

theorem context_overwrites_reserved_fields_witness:
  "cfg_enabled (config (instance_of (defaults\<lparr>deviceContext := Some [''metricName'' \<mapsto> JStr ''ctx'']\<rparr>))) \<and>
   cfg_context (config (instance_of (defaults\<lparr>deviceContext := Some [''metricName'' \<mapsto> JStr ''ctx'']\<rparr>)))
     ''metricName'' = Some (JStr ''ctx'') \<and>
   make_event browser (instance_of (defaults\<lparr>deviceContext := Some [''metricName'' \<mapsto> JStr ''ctx'']\<rparr>))
      ''Click'' None None NoAttributes None ''metricName'' = Some (JStr ''ctx'') \<and>
   enqueued_as (instance_of (defaults\<lparr>deviceContext := Some [''metricName'' \<mapsto> JStr ''ctx'']\<rparr>))
     (trackEvent browser ''Click'' None None NoAttributes None
        (instance_of (defaults\<lparr>deviceContext := Some [''metricName'' \<mapsto> JStr ''ctx'']\<rparr>)))
     (make_event browser (instance_of (defaults\<lparr>deviceContext := Some [''metricName'' \<mapsto> JStr ''ctx'']\<rparr>))
        ''Click'' None None NoAttributes None)"
proof -
  let ?w = "instance_of (defaults\<lparr>deviceContext := Some [''metricName'' \<mapsto> JStr ''ctx'']\<rparr>)"
  have h1: "cfg_enabled (config ?w)"
    by (simp add: instance_of_simps resolve_def defaults_def)
  have h2: "cfg_context (config ?w) ''metricName'' = Some (JStr ''ctx'')"
    by (simp add: instance_of_simps resolve_def defaults_def)
  show ?thesis
    using h1 h2 context_overwrites_reserved_fields [OF h1 h2, of browser "''Click''" None None NoAttributes None]
    by blast
qed

lemma parsedAttributes_empty:
  "parsedAttributes e (StringAttributes []) = parsedAttributes e NoAttributes"
  by (simp add: parsedAttributes_def)

text \<open>
  Claim C10: \<open>trackEvent\<close> with the empty string as attributes does exactly what it does
  with no attributes argument; on an enabled instance whose context has no
  \<open>attributes\<close> key the event it enqueues has \<open>attributes = {}\<close>, which differs from
  \<open>{raw: ""}\<close>.
\<close>

theorem empty_string_attributes_like_absent:
  "trackEvent e m v c (StringAttributes []) g w = trackEvent e m v c NoAttributes g w \<and>
   (cfg_enabled (config w) \<and> cfg_context (config w) ''attributes'' = None \<longrightarrow>
      make_event e w m v c (StringAttributes []) g ''attributes'' = Some (JObj []) \<and>
      make_event e w m v c (StringAttributes []) g ''attributes'' \<noteq> Some (JObj [(''raw'', JStr [])]) \<and>
      enqueued_as w (trackEvent e m v c (StringAttributes []) g w)
        (make_event e w m v c (StringAttributes []) g))"
proof (intro conjI impI)
  have same: "make_event e w m v c (StringAttributes []) g = make_event e w m v c NoAttributes g"
    by (simp add: make_event_def parsedAttributes_empty)
  show "trackEvent e m v c (StringAttributes []) g w = trackEvent e m v c NoAttributes g w"
    by (simp add: trackEvent_def same)
next
  assume h: "cfg_enabled (config w) \<and> cfg_context (config w) ''attributes'' = None"
  then show "make_event e w m v c (StringAttributes []) g ''attributes'' = Some (JObj [])"
    by (simp add: make_event_attributes parsedAttributes_def)
  from h show "make_event e w m v c (StringAttributes []) g ''attributes''
                 \<noteq> Some (JObj [(''raw'', JStr [])])"
    by (simp add: make_event_attributes parsedAttributes_def)
  from h show "enqueued_as w (trackEvent e m v c (StringAttributes []) g w)
                 (make_event e w m v c (StringAttributes []) g)"
    by (simp add: trackEvent_enqueues)
qed

text \<open>The theorem of C10 on the instance built from the default configuration.\<close>

theorem empty_string_attributes_like_absent_witness:
  "cfg_enabled (config (instance_of defaults)) \<and>
   cfg_context (config (instance_of defaults)) ''attributes'' = None \<and>
   make_event browser (instance_of defaults) ''Click'' None None (StringAttributes []) None ''attributes''
     = Some (JObj []) \<and>
   enqueued_as (instance_of defaults)
     (trackEvent browser ''Click'' None None (StringAttributes []) None (instance_of defaults))
     (make_event browser (instance_of defaults) ''Click'' None None (StringAttributes []) None)"
proof -
  have h: "cfg_enabled (config (instance_of defaults)) \<and>
           cfg_context (config (instance_of defaults)) ''attributes'' = None"
    by (simp add: instance_of_simps resolve_def defaults_def)
  show ?thesis
    using h empty_string_attributes_like_absent
      [of browser "''Click''" None None None "instance_of defaults"]
    by blast
qed

text \<open>
  Claim C7 says that every attributes string that fails to parse is wrapped as
  \<open>{raw: <string>}\<close>. The empty string fails to parse, yet the enqueued event has
  \<open>attributes = {}\<close>: the guard \<open>if (attributes)\<close> skips the parse for it.
\<close>

theorem unparsable_attributes_counterexample:
  "JSON_parse browser [] = None \<and>
   eventQueue (trackEvent browser ''Click'' None None (StringAttributes []) None (instance_of defaults))
     = [make_event browser (instance_of defaults) ''Click'' None None (StringAttributes []) None] \<and>
   make_event browser (instance_of defaults) ''Click'' None None (StringAttributes []) None ''attributes''
     = Some (JObj []) \<and>
   make_event browser (instance_of defaults) ''Click'' None None (StringAttributes []) None ''attributes''
     \<noteq> Some (JObj [(''raw'', JStr [])])"
  by (simp add: browser_def trackEvent_def Let_def instance_of_simps resolve_def defaults_def
      make_event_attributes parsedAttributes_def)

text \<open>
  Claim C7, amended: on an enabled instance whose context has no \<open>attributes\<close> key,
  for every non-empty attributes string that fails to parse, \<open>trackEvent\<close> enqueues
  the event and the event's \<open>attributes\<close> field is \<open>{raw: <the string>}\<close>. (The
  model of \<open>trackEvent\<close> is total: the failure of \<open>JSON.parse\<close> is the \<open>None\<close>
  branch, and no branch raises.)
\<close>

theorem unparsable_attributes_wrapped_raw:
  "cfg_enabled (config w) \<Longrightarrow> cfg_context (config w) ''attributes'' = None \<Longrightarrow>
   s \<noteq> [] \<Longrightarrow> JSON_parse e s = None \<Longrightarrow>
   make_event e w m v c (StringAttributes s) g ''attributes'' = Some (JObj [(''raw'', JStr s)]) \<and>
   enqueued_as w (trackEvent e m v c (StringAttributes s) g w)
     (make_event e w m v c (StringAttributes s) g)"
  by (simp add: make_event_attributes trackEvent_enqueues parsedAttributes_def)

text \<open>The theorem of C7 at the string \<open>{bad json\<close>.\<close>

theorem unparsable_attributes_wrapped_raw_witness:
  "cfg_enabled (config (instance_of defaults)) \<and>
   cfg_context (config (instance_of defaults)) ''attributes'' = None \<and>
   ''{bad json'' \<noteq> [] \<and> JSON_parse browser ''{bad json'' = None \<and>
   make_event browser (instance_of defaults) ''Click'' None None (StringAttributes ''{bad json'') None
     ''attributes'' = Some (JObj [(''raw'', JStr ''{bad json'')]) \<and>
   enqueued_as (instance_of defaults)
     (trackEvent browser ''Click'' None None (StringAttributes ''{bad json'') None (instance_of defaults))
     (make_event browser (instance_of defaults) ''Click'' None None (StringAttributes ''{bad json'') None)"
proof -
  have h1: "cfg_enabled (config (instance_of defaults))"
    by (simp add: instance_of_simps resolve_def defaults_def)
  have h2: "cfg_context (config (instance_of defaults)) ''attributes'' = None"
    by (simp add: instance_of_simps resolve_def defaults_def)
  have h3: "''{bad json'' \<noteq> []" by simp
  have h4: "JSON_parse browser ''{bad json'' = None" by (simp add: browser_def)
  show ?thesis
    using h1 h2 h3 h4 unparsable_attributes_wrapped_raw [OF h1 h2 h3 h4, of "''Click''" None None None]
    by blast
qed

subsection \<open>Retry and backoff of one send\<close>

lemma failed_attempt_retries:
  assumes "pending w i = Some \<lparr>batch = b, retryCount = n, phase = AwaitingFetch, caller = c\<rparr>"
    and "failure r" and "int n < cfg_maxRetries (config w)"
  shows "delayElapsed i (fetchSettled i r w) =
           w\<lparr>pending := (pending w)(i \<mapsto> \<lparr>batch = b, retryCount = Suc n, phase = AwaitingFetch, caller = c\<rparr>),
             requests := requests w @ [retry_request w b c (Suc n)]\<rparr>"
  using assms
  by (simp add: fetchSettled_def delayElapsed_def sendBatch_def failure_def retry_request_def)

lemma attempts_failures:
  "pending w i = Some \<lparr>batch = b, retryCount = n, phase = AwaitingFetch, caller = c\<rparr> \<Longrightarrow>
   list_all failure rs \<Longrightarrow> int (n + length rs) \<le> cfg_maxRetries (config w) \<Longrightarrow>
   attempts i rs w =
     w\<lparr>pending := (pending w)(i \<mapsto> \<lparr>batch = b, retryCount = n + length rs, phase = AwaitingFetch, caller = c\<rparr>),
       requests := requests w @ map (retry_request w b c) [Suc n ..< Suc (n + length rs)]\<rparr>"
proof (induction rs arbitrary: w n)
  case Nil
  then show ?case by (simp add: map_upd_triv)
next
  case (Cons r rs)
  let ?w = "delayElapsed i (fetchSettled i r w)"
  have st: "?w = w\<lparr>pending := (pending w)(i \<mapsto> \<lparr>batch = b, retryCount = Suc n, phase = AwaitingFetch, caller = c\<rparr>),
             requests := requests w @ [retry_request w b c (Suc n)]\<rparr>"
    using Cons.prems by (intro failed_attempt_retries) auto
  have p: "pending ?w i = Some \<lparr>batch = b, retryCount = Suc n, phase = AwaitingFetch, caller = c\<rparr>"
    by (simp add: st)
  have c: "config ?w = config w" by (simp add: st)
  have "attempts i (r # rs) w = attempts i rs ?w" by simp
  also have "\<dots> =
     ?w\<lparr>pending := (pending ?w)(i \<mapsto> \<lparr>batch = b, retryCount = Suc n + length rs, phase = AwaitingFetch, caller = c\<rparr>),
       requests := requests ?w @ map (retry_request ?w b c) [Suc (Suc n) ..< Suc (Suc n + length rs)]\<rparr>"
    using Cons.prems by (intro Cons.IH [OF p]) (auto simp: c)
  also have "\<dots> = w\<lparr>pending := (pending w)(i \<mapsto> \<lparr>batch = b, retryCount = n + length (r # rs), phase = AwaitingFetch, caller = c\<rparr>),
       requests := requests w @ map (retry_request w b c) [Suc n ..< Suc (n + length (r # rs))]\<rparr>"
  proof -
    have u: "[Suc n ..< Suc (n + length (r # rs))] = Suc n # [Suc (Suc n) ..< Suc (Suc n + length rs)]"
      by (simp add: upt_conv_Cons del: upt_Suc)
    show ?thesis
      unfolding u by (simp add: st retry_request_def del: upt_Suc)
  qed
  finally show ?case .
qed

lemma resume_frame:
  "failedBatches (resume c w) = failedBatches w"
  "config (resume c w) = config w"
  "eventQueue (resume c w) = eventQueue w"
  "i < nextId w \<Longrightarrow> pending (resume c w) i = pending w i"
  by (induction c w rule: resume.induct) (simp_all add: sendBatch_new_def sendBatch_def)

lemma last_failure_archives:
  assumes "pending w i = Some \<lparr>batch = b, retryCount = n, phase = AwaitingFetch, caller = c\<rparr>"
    and "failure r" and "cfg_maxRetries (config w) \<le> int n"
  shows "fetchSettled i r w =
           resume c (w\<lparr>failedBatches := failedBatches w @ [b], pending := (pending w)(i := None)\<rparr>)"
  using assms by (simp add: fetchSettled_def failure_def)

lemma success_completes:
  assumes "pending w i = Some \<lparr>batch = b, retryCount = n, phase = AwaitingFetch, caller = c\<rparr>"
  shows "fetchSettled i (Resolved True) w = resume c (w\<lparr>pending := (pending w)(i := None)\<rparr>)"
  using assms by (simp add: fetchSettled_def)

lemma idle_invocation:
  "pending w i = None \<Longrightarrow> fetchSettled i r w = w"
  "pending w i = None \<Longrightarrow> delayElapsed i w = w"
  by (simp_all add: fetchSettled_def delayElapsed_def)

lemma attempts_append:
  "attempts i (rs @ ss) w = attempts i ss (attempts i rs w)"
  by (induction rs arbitrary: w) simp_all

lemma in_flight_simps:
  "pending in_flight 0 = Some \<lparr>batch = [click], retryCount = 0, phase = AwaitingFetch, caller = ByFlush\<rparr>"
  "cfg_maxRetries (config in_flight) = 3"
  "nextId in_flight = 1"
  "failedBatches in_flight = []"
  "isFlushingInProgress in_flight"
  "eventQueue in_flight = []"
  by (simp_all add: in_flight_def click_def trackEvent_def flush_def sendBatch_new_def sendBatch_def
      Let_def instance_of_simps resolve_def defaults_def)

text \<open>
  Claim C4: when the attempt with \<open>retryCount = n\<close> of an asynchronous send fails and
  \<open>n < maxRetries\<close>, the delay scheduled before the next attempt is exactly
  \<open>2^n * 1000\<close> milliseconds, nothing is archived, and when the delay has elapsed the
  next attempt posts the same batch, in the same order, with \<open>retryCount = n + 1\<close>.
\<close>

theorem backoff_delay_then_same_batch:
  assumes "pending w i = Some \<lparr>batch = b, retryCount = n, phase = AwaitingFetch, caller = c\<rparr>"
    and "failure r" and "int n < cfg_maxRetries (config w)"
  shows "pending (fetchSettled i r w) i =
           Some \<lparr>batch = b, retryCount = n, phase = AwaitingDelay (2 ^ n * 1000), caller = c\<rparr> \<and>
         requests (fetchSettled i r w) = requests w \<and>
         failedBatches (fetchSettled i r w) = failedBatches w \<and>
         pending (delayElapsed i (fetchSettled i r w)) i =
           Some \<lparr>batch = b, retryCount = n + 1, phase = AwaitingFetch, caller = c\<rparr> \<and>
         requests (delayElapsed i (fetchSettled i r w)) =
           requests w @ [\<lparr>via = Fetch, url = cfg_endpoint (config w), body = b, attempt = n + 1,
                           origin = origin_of c\<rparr>]"
  using assms
  by (simp add: fetchSettled_def delayElapsed_def sendBatch_def failure_def)

text \<open>The theorem of C4 at the first failure of the batch in flight: the delay is 1000 ms.\<close>

theorem backoff_delay_then_same_batch_witness:
  "pending in_flight 0 = Some \<lparr>batch = [click], retryCount = 0, phase = AwaitingFetch, caller = ByFlush\<rparr> \<and>
   failure Rejected \<and> int 0 < cfg_maxRetries (config in_flight) \<and>
   pending (fetchSettled 0 Rejected in_flight) 0 =
     Some \<lparr>batch = [click], retryCount = 0, phase = AwaitingDelay 1000, caller = ByFlush\<rparr> \<and>
   pending (delayElapsed 0 (fetchSettled 0 Rejected in_flight)) 0 =
     Some \<lparr>batch = [click], retryCount = 1, phase = AwaitingFetch, caller = ByFlush\<rparr>"
proof -
  have h1: "pending in_flight 0 =
      Some \<lparr>batch = [click], retryCount = 0, phase = AwaitingFetch, caller = ByFlush\<rparr>"
    by (rule in_flight_simps)
  have h2: "failure Rejected" by (simp add: failure_def)
  have h3: "int 0 < cfg_maxRetries (config in_flight)" by (simp add: in_flight_simps)
  show ?thesis
    using h1 h2 h3 backoff_delay_then_same_batch [OF h1 h2 h3] by simp
qed

text \<open>
  Claim C1, amended: a batch submitted through \<open>sendBatch\<close> is still being retried
  after \<open>maxRetries\<close> failed attempts; it is appended to \<open>failedBatches\<close>, unmodified
  and in its original order, when the attempt after those (the initial attempt and
  \<open>maxRetries\<close> retries have then failed) fails as well, and from then on the
  invocation is gone: no further retry occurs. A batch that fails at most
  \<open>maxRetries\<close> times and then succeeds never reaches the archive.
\<close>

theorem archived_after_maxRetries_plus_one_failures:
  assumes "pending w i = Some \<lparr>batch = b, retryCount = 0, phase = AwaitingFetch, caller = c\<rparr>"
    and "i < nextId w"
    and "cfg_maxRetries (config w) = int m"
    and "list_all failure rs" and "length rs = m" and "failure r" and "k \<le> m"
  shows "failedBatches (attempts i rs w) = failedBatches w \<and>
         pending (attempts i rs w) i =
           Some \<lparr>batch = b, retryCount = m, phase = AwaitingFetch, caller = c\<rparr> \<and>
         failedBatches (attempts i (rs @ [r]) w) = failedBatches w @ [b] \<and>
         pending (attempts i (rs @ [r]) w) i = None \<and>
         fetchSettled i r' (attempts i (rs @ [r]) w) = attempts i (rs @ [r]) w \<and>
         delayElapsed i (attempts i (rs @ [r]) w) = attempts i (rs @ [r]) w \<and>
         failedBatches (attempts i (take k rs @ [Resolved True]) w) = failedBatches w \<and>
         pending (attempts i (take k rs @ [Resolved True]) w) i = None"
proof -
  let ?t = "\<lambda>n. \<lparr>batch = b, retryCount = n, phase = AwaitingFetch, caller = c\<rparr>"
  have run: "attempts i ss w =
        w\<lparr>pending := (pending w)(i \<mapsto> ?t (length ss)),
          requests := requests w @ map (retry_request w b c) [Suc 0 ..< Suc (length ss)]\<rparr>"
    if "list_all failure ss" "length ss \<le> m" for ss
    using attempts_failures [OF assms(1) that(1)] that(2) assms(3) by simp
  let ?w = "attempts i rs w"
  have w: "?w = w\<lparr>pending := (pending w)(i \<mapsto> ?t m),
          requests := requests w @ map (retry_request w b c) [Suc 0 ..< Suc m]\<rparr>"
    using run [of rs] assms(4,5) by simp
  have a: "failedBatches ?w = failedBatches w" "pending ?w i = Some (?t m)"
    "nextId ?w = nextId w" "config ?w = config w"
    by (simp_all add: w)
  let ?x = "fetchSettled i r ?w"
  have "?x = resume c (?w\<lparr>failedBatches := failedBatches ?w @ [b], pending := (pending ?w)(i := None)\<rparr>)"
    using a assms(3,6) by (intro last_failure_archives) auto
  then have x: "failedBatches ?x = failedBatches w @ [b]" "pending ?x i = None"
    using assms(2) a by (simp_all add: resume_frame)
  have fin: "attempts i (rs @ [r]) w = ?x"
    by (simp add: attempts_append idle_invocation x)
  let ?v = "attempts i (take k rs) w"
  have v: "?v = w\<lparr>pending := (pending w)(i \<mapsto> ?t k),
          requests := requests w @ map (retry_request w b c) [Suc 0 ..< Suc k]\<rparr>"
  proof -
    have "list_all failure (take k rs)"
      using assms(4) by (auto simp: list_all_iff dest: in_set_takeD)
    moreover have "length (take k rs) = k"
      using assms(5,7) by simp
    ultimately show ?thesis
      using run [of "take k rs"] assms(7) by simp
  qed
  have b: "failedBatches ?v = failedBatches w" "pending ?v i = Some (?t k)" "nextId ?v = nextId w"
    by (simp_all add: v)
  let ?y = "fetchSettled i (Resolved True) ?v"
  have "?y = resume c (?v\<lparr>pending := (pending ?v)(i := None)\<rparr>)"
    using b by (intro success_completes) auto
  then have y: "failedBatches ?y = failedBatches w" "pending ?y i = None"
    using assms(2) b by (simp_all add: resume_frame)
  have ok: "attempts i (take k rs @ [Resolved True]) w = ?y"
    by (simp add: attempts_append idle_invocation y)
  show ?thesis
    unfolding fin ok using a x y by (simp add: idle_invocation)
qed

text \<open>The theorem of C1 at the default \<open>maxRetries = 3\<close>.\<close>

theorem archived_after_maxRetries_plus_one_failures_witness:
  "pending in_flight 0 = Some \<lparr>batch = [click], retryCount = 0, phase = AwaitingFetch, caller = ByFlush\<rparr> \<and>
   0 < nextId in_flight \<and> cfg_maxRetries (config in_flight) = int 3 \<and>
   list_all failure [Rejected, Resolved False, Rejected] \<and>
   length [Rejected, Resolved False, Rejected] = 3 \<and> failure (Resolved False) \<and> (2::nat) \<le> 3 \<and>
   failedBatches (attempts 0 [Rejected, Resolved False, Rejected] in_flight) = [] \<and>
   failedBatches (attempts 0 [Rejected, Resolved False, Rejected, Resolved False] in_flight) = [[click]] \<and>
   pending (attempts 0 [Rejected, Resolved False, Rejected, Resolved False] in_flight) 0 = None \<and>
   failedBatches (attempts 0 [Rejected, Resolved False, Resolved True] in_flight) = [] \<and>
   pending (attempts 0 [Rejected, Resolved False, Resolved True] in_flight) 0 = None"
proof -
  have h1: "pending in_flight 0 =
      Some \<lparr>batch = [click], retryCount = 0, phase = AwaitingFetch, caller = ByFlush\<rparr>"
    by (rule in_flight_simps)
  have h2: "0 < nextId in_flight" by (simp add: in_flight_simps)
  have h3: "cfg_maxRetries (config in_flight) = int 3" by (simp add: in_flight_simps)
  have h4: "list_all failure [Rejected, Resolved False, Rejected]" by (simp add: failure_def)
  have h5: "length [Rejected, Resolved False, Rejected] = 3" by simp
  have h6: "failure (Resolved False)" by (simp add: failure_def)
  have h7: "(2::nat) \<le> 3" by simp
  show ?thesis
    using h1 h2 h3 h4 h5 h6 h7
      archived_after_maxRetries_plus_one_failures [OF h1 h2 h3 h4 h5 h6 h7]
    by (simp add: in_flight_simps)
qed

text \<open>
  Claim C1 says that a batch whose delivery fails exactly \<open>maxRetries\<close> times is
  archived and not retried. With the default \<open>maxRetries = 3\<close>, after three failures
  the archive is empty and a fourth request is in flight; when that one succeeds the
  batch never reaches the archive.
\<close>

theorem archived_after_maxRetries_failures_counterexample:
  "cfg_maxRetries (config in_flight) = 3 \<and>
   failedBatches (attempts 0 [Rejected, Rejected, Rejected] in_flight) = [] \<and>
   pending (attempts 0 [Rejected, Rejected, Rejected] in_flight) 0 =
     Some \<lparr>batch = [click], retryCount = 3, phase = AwaitingFetch, caller = ByFlush\<rparr> \<and>
   failedBatches (attempts 0 [Rejected, Rejected, Rejected, Resolved True] in_flight) = [] \<and>
   pending (attempts 0 [Rejected, Rejected, Rejected, Resolved True] in_flight) 0 = None"
proof -
  have h1: "pending in_flight 0 =
      Some \<lparr>batch = [click], retryCount = 0, phase = AwaitingFetch, caller = ByFlush\<rparr>"
    by (rule in_flight_simps)
  have f: "list_all failure [Rejected, Rejected, Rejected]" by (simp add: failure_def)
  have w: "attempts 0 [Rejected, Rejected, Rejected] in_flight =
      in_flight\<lparr>pending := (pending in_flight)(0 \<mapsto>
          \<lparr>batch = [click], retryCount = 0 + length [Rejected, Rejected, Rejected],
           phase = AwaitingFetch, caller = ByFlush\<rparr>),
        requests := requests in_flight @ map (retry_request in_flight [click] ByFlush)
          [Suc 0 ..< Suc (0 + length [Rejected, Rejected, Rejected])]\<rparr>"
    by (rule attempts_failures [OF h1 f]) (simp add: in_flight_simps)
  have s: "attempts 0 [Rejected, Rejected, Rejected, Resolved True] in_flight =
      attempts 0 [Resolved True] (attempts 0 [Rejected, Rejected, Rejected] in_flight)"
    using attempts_append [of 0 "[Rejected, Rejected, Rejected]" "[Resolved True]" in_flight] by simp
  show ?thesis
    unfolding s unfolding w
    by (simp add: in_flight_simps fetchSettled_def delayElapsed_def)
qed

subsection \<open>The busy flag during retries\<close>

lemma flush_guarded_frame:
  "flush_guarded (w\<lparr>eventQueue := q\<rparr>) = flush_guarded w"
  "flush_guarded (w\<lparr>failedBatches := f\<rparr>) = flush_guarded w"
  "flush_guarded (w\<lparr>flushTimer := x\<rparr>) = flush_guarded w"
  "flush_guarded (w\<lparr>requests := rq\<rparr>) = flush_guarded w"
  by (simp_all add: flush_guarded_def)

lemma flush_guarded_created: "Analytics_new e c = Inr w \<Longrightarrow> flush_guarded w"
  by (auto simp: Analytics_new_def Let_def flush_guarded_def setupUnloadHandler_def startFlushTimer_def
      split: if_splits)

lemma flush_guarded_replay:
  "flush_guarded w \<Longrightarrow> flush_guarded (sendBatch_new (ByRetryFailedBatches bs) b w)"
  unfolding flush_guarded_def sendBatch_new_def sendBatch_def
  by (auto simp: less_Suc_eq split: if_splits)

lemma flush_guarded_resume_replay:
  "flush_guarded w \<Longrightarrow> flush_guarded (resume (ByRetryFailedBatches bs) w)"
  by (cases bs) (simp_all add: flush_guarded_replay)

lemma flush_guarded_flush: "flush_guarded w \<Longrightarrow> flush_guarded (flush w)"
  unfolding flush_guarded_def flush_def sendBatch_new_def sendBatch_def
  by (auto simp: less_Suc_eq split: if_splits)

lemma flush_guarded_remove:
  "flush_guarded w \<Longrightarrow> flush_guarded (w\<lparr>pending := (pending w)(i := None)\<rparr>)"
  unfolding flush_guarded_def by (auto split: if_splits)

lemma flush_guarded_done:
  assumes "flush_guarded w" and "pending w i = Some t"
  shows "flush_guarded (resume (caller t) (w\<lparr>pending := (pending w)(i := None)\<rparr>))"
proof (cases "caller t")
  case ByFlush
  have "\<And>j u. pending w j = Some u \<Longrightarrow> caller u = ByFlush \<Longrightarrow> j = i"
    using assms ByFlush unfolding flush_guarded_def by blast
  then show ?thesis
    using assms(1) ByFlush unfolding flush_guarded_def by (auto split: if_splits)
next
  case (ByRetryFailedBatches bs)
  then show ?thesis
    using flush_guarded_resume_replay [OF flush_guarded_remove [OF assms(1)]] by simp
qed

lemma flush_guarded_same_caller:
  assumes "flush_guarded w" and "pending w i = Some t" and "caller t' = caller t"
  shows "flush_guarded (w\<lparr>pending := (pending w)(i \<mapsto> t')\<rparr>)"
  using assms unfolding flush_guarded_def
  by (auto split: if_splits)

lemma flush_guarded_fetchSettled: "flush_guarded w \<Longrightarrow> flush_guarded (fetchSettled i r w)"
proof -
  assume g: "flush_guarded w"
  show ?thesis
  proof (cases "pending w i")
    case None
    then show ?thesis using g by (simp add: fetchSettled_def)
  next
    case (Some t)
    show ?thesis
    proof (cases "phase t")
      case (AwaitingDelay d)
      then show ?thesis using g Some by (simp add: fetchSettled_def)
    next
      case AwaitingFetch
      have d: "flush_guarded (resume (caller t) (w\<lparr>pending := (pending w)(i := None)\<rparr>))"
        by (rule flush_guarded_done [OF g Some])
      have g': "flush_guarded (w\<lparr>failedBatches := failedBatches w @ [batch t]\<rparr>)"
        using g by (simp only: flush_guarded_frame)
      have "flush_guarded (resume (caller t)
          ((w\<lparr>failedBatches := failedBatches w @ [batch t]\<rparr>)
             \<lparr>pending := (pending (w\<lparr>failedBatches := failedBatches w @ [batch t]\<rparr>))(i := None)\<rparr>))"
        by (rule flush_guarded_done [OF g']) (simp add: Some)
      then have d': "flush_guarded (resume (caller t)
          (w\<lparr>failedBatches := failedBatches w @ [batch t], pending := (pending w)(i := None)\<rparr>))"
        by simp
      have s: "flush_guarded (w\<lparr>pending := (pending w)(i \<mapsto> t\<lparr>phase := AwaitingDelay (2 ^ retryCount t * 1000)\<rparr>)\<rparr>)"
        by (rule flush_guarded_same_caller [OF g Some]) simp
      consider "r = Resolved True"
        | "r \<noteq> Resolved True" "int (retryCount t) < cfg_maxRetries (config w)"
        | "r \<noteq> Resolved True" "\<not> int (retryCount t) < cfg_maxRetries (config w)"
        by blast
      then show ?thesis
      proof cases
        case 1
        then have "fetchSettled i r w = resume (caller t) (w\<lparr>pending := (pending w)(i := None)\<rparr>)"
          using Some AwaitingFetch by (simp add: fetchSettled_def)
        then show ?thesis using d by simp
      next
        case 2
        then have "fetchSettled i r w =
            w\<lparr>pending := (pending w)(i \<mapsto> t\<lparr>phase := AwaitingDelay (2 ^ retryCount t * 1000)\<rparr>)\<rparr>"
          using Some AwaitingFetch by (simp add: fetchSettled_def)
        then show ?thesis using s by simp
      next
        case 3
        then have "fetchSettled i r w = resume (caller t)
            (w\<lparr>failedBatches := failedBatches w @ [batch t], pending := (pending w)(i := None)\<rparr>)"
          using Some AwaitingFetch by (simp add: fetchSettled_def)
        then show ?thesis using d' by simp
      qed
    qed
  qed
qed

lemma flush_guarded_delayElapsed: "flush_guarded w \<Longrightarrow> flush_guarded (delayElapsed i w)"
proof -
  assume g: "flush_guarded w"
  show ?thesis
  proof (cases "pending w i")
    case None
    then show ?thesis using g by (simp add: delayElapsed_def)
  next
    case (Some t)
    show ?thesis
    proof (cases "phase t")
      case AwaitingFetch
      then show ?thesis using g Some by (simp add: delayElapsed_def)
    next
      case (AwaitingDelay d)
      have "flush_guarded (w\<lparr>pending := (pending w)(i \<mapsto>
          \<lparr>batch = batch t, retryCount = retryCount t + 1, phase = AwaitingFetch, caller = caller t\<rparr>)\<rparr>)"
        by (rule flush_guarded_same_caller [OF g Some]) simp
      then have "flush_guarded ((w\<lparr>pending := (pending w)(i \<mapsto>
          \<lparr>batch = batch t, retryCount = retryCount t + 1, phase = AwaitingFetch, caller = caller t\<rparr>)\<rparr>)
            \<lparr>requests := requests w @ [\<lparr>via = Fetch, url = cfg_endpoint (config w), body = batch t,
                attempt = retryCount t + 1, origin = origin_of (caller t)\<rparr>]\<rparr>)"
        by (simp only: flush_guarded_frame)
      moreover have "delayElapsed i w = (w\<lparr>pending := (pending w)(i \<mapsto>
          \<lparr>batch = batch t, retryCount = retryCount t + 1, phase = AwaitingFetch, caller = caller t\<rparr>)\<rparr>)
            \<lparr>requests := requests w @ [\<lparr>via = Fetch, url = cfg_endpoint (config w), body = batch t,
                attempt = retryCount t + 1, origin = origin_of (caller t)\<rparr>]\<rparr>"
        using Some AwaitingDelay by (simp add: delayElapsed_def sendBatch_def)
      ultimately show ?thesis by simp
    qed
  qed
qed

lemma flush_guarded_trackEvent: "flush_guarded w \<Longrightarrow> flush_guarded (trackEvent e m v c a g w)"
  by (simp add: trackEvent_def Let_def flush_guarded_flush flush_guarded_frame)

lemma flush_guarded_step: "flush_guarded w \<Longrightarrow> flush_guarded (step e a w)"
  by (cases a)
    (simp_all add: flush_guarded_trackEvent flush_guarded_flush flush_guarded_fetchSettled
      flush_guarded_delayElapsed flush_guarded_frame flush_guarded_resume_replay
      flushSync_def retryFailedBatches_def clear_def destroy_def)

lemma reachable_flush_guarded: "reachable w \<Longrightarrow> flush_guarded w"
  by (induction rule: reachable.induct) (simp_all add: flush_guarded_created flush_guarded_step)

lemma reachable_run: "reachable w \<Longrightarrow> reachable (run tr w)"
proof (induction tr arbitrary: w)
  case Nil
  then show ?case by simp
next
  case (Cons x tr)
  then show ?case by (cases x) (simp add: reachable.stepped)
qed

lemma reachable_instance_of: "reachable (instance_of c)"
  by (rule reachable.created [of browser c]) (simp add: instance_of_def Analytics_new_def Let_def)

lemma reachable_in_flight: "reachable in_flight"
  using reachable.stepped
    [OF reachable.stepped [OF reachable_instance_of, of browser
          "TrackEvent ''Click'' None None NoAttributes None" defaults], of browser Flush]
  by (simp add: in_flight_def)

lemma reachable_backing_off: "reachable backing_off"
  using reachable.stepped [OF reachable_in_flight, of browser "FetchSettled 0 Rejected"]
  by (simp add: backing_off_def)

lemma backing_off_simps:
  "pending backing_off 0 =
     Some \<lparr>batch = [click], retryCount = 0, phase = AwaitingDelay 1000, caller = ByFlush\<rparr>"
  "cfg_enabled (config backing_off)"
  "isFlushingInProgress backing_off"
  "eventQueue backing_off = []"
  "length (requests backing_off) = 1"
  by (simp_all add: backing_off_def fetchSettled_def in_flight_simps)
    (simp_all add: in_flight_def trackEvent_def flush_def sendBatch_new_def sendBatch_def
      Let_def instance_of_simps resolve_def defaults_def)

text \<open>
  Claim C3, amended: while a batch that \<open>flush\<close> extracted waits out a backoff delay,
  an enabled instance still accepts new enqueues (\<open>trackEvent\<close> appends the event to
  the queue), but every asynchronous flush request that arrives during the delay (a call
  of \<open>flush\<close>, the timer tick, the visibility change, the size trigger inside
  \<open>trackEvent\<close>) is dropped: \<open>isFlushingInProgress\<close> stays set until the batch has
  succeeded or is archived, so no independent send starts. Stated for every state the
  instance can reach from its construction.
\<close>

theorem flush_dropped_during_backoff:
  assumes "reachable w" and "pending w i = Some t" and "caller t = ByFlush"
    and "phase t = AwaitingDelay d" and "cfg_enabled (config w)"
  shows "trackEvent e m v c a g w = w\<lparr>eventQueue := eventQueue w @ [make_event e w m v c a g]\<rparr> \<and>
         flush w = w \<and> step e TimerTick w = w \<and> step e VisibilityHidden w = w \<and>
         flush (trackEvent e m v c a g w) = trackEvent e m v c a g w"
proof -
  have "flush_guarded w"
    by (rule reachable_flush_guarded [OF assms(1)])
  then have busy: "isFlushingInProgress w"
    using assms(2,3) unfolding flush_guarded_def by blast
  then show ?thesis
    using assms(5) by (simp add: trackEvent_def flush_def Let_def)
qed

text \<open>
  The theorem of C3 in the state where the first attempt of the batch in flight has failed.
\<close>

theorem flush_dropped_during_backoff_witness:
  "reachable backing_off \<and>
   pending backing_off 0 =
     Some \<lparr>batch = [click], retryCount = 0, phase = AwaitingDelay 1000, caller = ByFlush\<rparr> \<and>
   cfg_enabled (config backing_off) \<and>
   flush backing_off = backing_off \<and>
   trackEvent browser ''Next'' None None NoAttributes None backing_off =
     backing_off\<lparr>eventQueue := eventQueue backing_off @
       [make_event browser backing_off ''Next'' None None NoAttributes None]\<rparr>"
proof -
  have h1: "reachable backing_off" by (rule reachable_backing_off)
  have h2: "pending backing_off 0 =
      Some \<lparr>batch = [click], retryCount = 0, phase = AwaitingDelay 1000, caller = ByFlush\<rparr>"
    by (rule backing_off_simps)
  have h3: "caller \<lparr>batch = [click], retryCount = 0, phase = AwaitingDelay 1000, caller = ByFlush\<rparr> = ByFlush"
    by simp
  have h4: "phase \<lparr>batch = [click], retryCount = 0, phase = AwaitingDelay 1000, caller = ByFlush\<rparr>
      = AwaitingDelay 1000"
    by simp
  have h5: "cfg_enabled (config backing_off)" by (rule backing_off_simps)
  show ?thesis
    using h1 h2 h5 flush_dropped_during_backoff [OF h1 h2 h3 h4 h5, of browser "''Next''" None None NoAttributes None]
    by blast
qed

text \<open>
  Claim C3 says that a flush request arriving during the backoff delay with a non-empty
  queue initiates a new send. In the state where the batch in flight waits out its first
  delay, an event is enqueued and \<open>flush\<close> is called: the state does not change, and
  the only request ever issued is still the first one.
\<close>

theorem flush_during_backoff_counterexample:
  "pending backing_off 0 =
     Some \<lparr>batch = [click], retryCount = 0, phase = AwaitingDelay 1000, caller = ByFlush\<rparr> \<and>
   eventQueue (trackEvent browser ''Next'' None None NoAttributes None backing_off) \<noteq> [] \<and>
   flush (trackEvent browser ''Next'' None None NoAttributes None backing_off) =
     trackEvent browser ''Next'' None None NoAttributes None backing_off \<and>
   length (requests backing_off) = 1 \<and>
   length (requests (flush (trackEvent browser ''Next'' None None NoAttributes None backing_off))) = 1"
  by (simp add: backing_off_simps trackEvent_def flush_def Let_def)

subsection \<open>The size trigger\<close>

text \<open>
  Claim C6, amended: on an enabled instance with no asynchronous flush in flight, the
  \<open>trackEvent\<close> call whose push makes the queue length reach \<open>batchSize\<close> starts the
  flush inside the same call: on return the queue is empty, the busy flag is set and one
  request carrying the whole queue, the new event last, has been issued.
\<close>

theorem size_trigger_flushes_when_idle:
  assumes "cfg_enabled (config w)" and "\<not> isFlushingInProgress w"
    and "cfg_batchSize (config w) \<le> int (length (eventQueue w)) + 1"
  shows "eventQueue (trackEvent e m v c a g w) = [] \<and>
         isFlushingInProgress (trackEvent e m v c a g w) \<and>
         requests (trackEvent e m v c a g w) =
           requests w @ [\<lparr>via = Fetch, url = cfg_endpoint (config w),
                           body = eventQueue w @ [make_event e w m v c a g], attempt = 0,
                           origin = FromQueue\<rparr>] \<and>
         pending (trackEvent e m v c a g w) (nextId w) =
           Some \<lparr>batch = eventQueue w @ [make_event e w m v c a g], retryCount = 0,
                 phase = AwaitingFetch, caller = ByFlush\<rparr>"
  using assms
  by (simp add: trackEvent_def Let_def flush_def sendBatch_new_def sendBatch_def origin_of_def)

lemma one_queued_simps:
  "cfg_enabled (config (run [track ''A''] (instance_of small_batches)))"
  "\<not> isFlushingInProgress (run [track ''A''] (instance_of small_batches))"
  "cfg_batchSize (config (run [track ''A''] (instance_of small_batches))) = 2"
  "length (eventQueue (run [track ''A''] (instance_of small_batches))) = 1"
  "requests (run [track ''A''] (instance_of small_batches)) = []"
  by (simp_all add: track_def trackEvent_def flush_def Let_def instance_of_simps resolve_def
      small_batches_def defaults_def)

text \<open>
  The theorem of C6 with \<open>batchSize = 2\<close>: the second \<open>trackEvent\<close> sends both events.
\<close>

theorem size_trigger_flushes_when_idle_witness:
  "cfg_enabled (config (run [track ''A''] (instance_of small_batches))) \<and>
   \<not> isFlushingInProgress (run [track ''A''] (instance_of small_batches)) \<and>
   cfg_batchSize (config (run [track ''A''] (instance_of small_batches)))
     \<le> int (length (eventQueue (run [track ''A''] (instance_of small_batches)))) + 1 \<and>
   eventQueue (trackEvent browser ''B'' None None NoAttributes None
     (run [track ''A''] (instance_of small_batches))) = [] \<and>
   length (requests (trackEvent browser ''B'' None None NoAttributes None
     (run [track ''A''] (instance_of small_batches)))) = 1"
proof -
  let ?w = "run [track ''A''] (instance_of small_batches)"
  have h1: "cfg_enabled (config ?w)" by (rule one_queued_simps)
  have h2: "\<not> isFlushingInProgress ?w" by (rule one_queued_simps)
  have h3: "cfg_batchSize (config ?w) \<le> int (length (eventQueue ?w)) + 1"
    by (simp add: one_queued_simps)
  show ?thesis
    using h1 h2 h3 size_trigger_flushes_when_idle [OF h1 h2 h3, of browser "''B''" None None NoAttributes None]
    by (simp add: one_queued_simps)
qed

lemma busy_simps:
  "cfg_enabled (config (run [track ''A'', (browser, Flush), track ''B''] (instance_of small_batches)))"
  "isFlushingInProgress (run [track ''A'', (browser, Flush), track ''B''] (instance_of small_batches))"
  "cfg_batchSize (config (run [track ''A'', (browser, Flush), track ''B''] (instance_of small_batches))) = 2"
  "length (eventQueue (run [track ''A'', (browser, Flush), track ''B''] (instance_of small_batches))) = 1"
  "length (requests (run [track ''A'', (browser, Flush), track ''B''] (instance_of small_batches))) = 1"
  by (simp_all add: track_def trackEvent_def flush_def sendBatch_new_def sendBatch_def Let_def
      instance_of_simps resolve_def small_batches_def defaults_def)

text \<open>
  Claim C6 says that on every enabled instance the enqueue that makes the queue length
  reach \<open>batchSize\<close> initiates a flush. With \<open>batchSize = 2\<close>, an event is tracked and
  flushed by hand; while that flush is in flight two more events are tracked. The second
  one makes the queue length reach 2, \<open>flush()\<close> is called and returns at its guard: no
  request is issued and no send is started.
\<close>

theorem size_trigger_counterexample:
  "cfg_enabled (config (run [track ''A'', (browser, Flush), track ''B''] (instance_of small_batches))) \<and>
   cfg_batchSize (config (run [track ''A'', (browser, Flush), track ''B''] (instance_of small_batches))) = 2 \<and>
   length (eventQueue (run [track ''A'', (browser, Flush), track ''B''] (instance_of small_batches))) = 1 \<and>
   length (eventQueue (run [track ''A'', (browser, Flush), track ''B'', track ''C'']
     (instance_of small_batches))) = 2 \<and>
   requests (run [track ''A'', (browser, Flush), track ''B'', track ''C''] (instance_of small_batches)) =
     requests (run [track ''A'', (browser, Flush), track ''B''] (instance_of small_batches)) \<and>
   pending (run [track ''A'', (browser, Flush), track ''B'', track ''C''] (instance_of small_batches)) =
     pending (run [track ''A'', (browser, Flush), track ''B''] (instance_of small_batches))"
proof -
  have r: "run [track ''A'', (browser, Flush), track ''B'', track ''C''] (instance_of small_batches) =
      trackEvent browser ''C'' None None NoAttributes None
        (run [track ''A'', (browser, Flush), track ''B''] (instance_of small_batches))"
    by (simp add: track_def)
  show ?thesis
    unfolding r by (simp add: busy_simps trackEvent_def Let_def flush_def)
qed

subsection \<open>Batch extraction\<close>

lemma extracted_snoc:
  "extracted (qs @ [q]) =
     extracted qs @ (if origin q = FromQueue \<and> attempt q = 0 then body q else [])"
  by (simp add: extracted_def)

lemma ledger_flush: "ledger (flush w) = ledger w"
  by (simp add: ledger_def flush_def sendBatch_new_def sendBatch_def extracted_snoc origin_of_def)

lemma ledger_flushSync: "ledger (flushSync e w) = ledger w"
  by (simp add: ledger_def flushSync_def extracted_snoc)

lemma ledger_resume: "ledger (resume c w) = ledger w"
  by (induction c w rule: resume.induct)
    (simp_all add: ledger_def sendBatch_new_def sendBatch_def extracted_snoc origin_of_def)

lemma ledger_frame:
  "ledger (w\<lparr>pending := p\<rparr>) = ledger w"
  "ledger (w\<lparr>failedBatches := f\<rparr>) = ledger w"
  "ledger (w\<lparr>flushTimer := x\<rparr>) = ledger w"
  by (simp_all add: ledger_def)

lemma ledger_fetchSettled: "ledger (fetchSettled i r w) = ledger w"
  by (simp add: fetchSettled_def ledger_resume ledger_frame split: option.splits phase.splits)

lemma ledger_delayElapsed: "ledger (delayElapsed i w) = ledger w"
  by (simp add: delayElapsed_def sendBatch_def ledger_def extracted_snoc
      split: option.splits phase.splits)

lemma ledger_trackEvent:
  "ledger (trackEvent e m v c a g w) =
     ledger w @ (if cfg_enabled (config w) then [make_event e w m v c a g] else [])"
  by (simp add: trackEvent_def Let_def ledger_flush) (simp add: ledger_def)

lemma ledger_step: "a \<noteq> Clear \<Longrightarrow> ledger (step e a w) = ledger w @ tracked [(e, a)] w"
  by (cases a)
    (simp_all add: ledger_trackEvent ledger_flush ledger_flushSync ledger_fetchSettled
      ledger_delayElapsed ledger_resume ledger_frame retryFailedBatches_def destroy_def)

lemma tracked_Cons: "tracked ((e, a) # tr) w = tracked [(e, a)] w @ tracked tr (step e a w)"
  by (cases a) simp_all

lemma ledger_run: "Clear \<notin> snd ` set tr \<Longrightarrow> ledger (run tr w) = ledger w @ tracked tr w"
proof (induction tr arbitrary: w)
  case Nil
  then show ?case by simp
next
  case (Cons x tr)
  obtain e a where x: "x = (e, a)" by (cases x)
  have a: "a \<noteq> Clear" and tr: "Clear \<notin> snd ` set tr"
    using Cons.prems x by auto
  have "ledger (run (x # tr) w) = ledger (step e a w) @ tracked tr (step e a w)"
    using Cons.IH [OF tr] x by simp
  also have "\<dots> = ledger w @ tracked [(e, a)] w @ tracked tr (step e a w)"
    by (simp add: ledger_step [OF a])
  also have "\<dots> = ledger w @ tracked (x # tr) w"
    using tracked_Cons [of e a tr w] x by simp
  finally show ?case .
qed

lemma flush_busy: "isFlushingInProgress w \<Longrightarrow> flush w = w"
  by (simp add: flush_def)

text \<open>
  Claim C2. A flush that starts in \<open>w\<close> (queue not empty, no flush in flight) takes as
  its batch exactly the queue of \<open>w\<close>, in order, and leaves the queue empty within the
  same handler. An event that \<open>trackEvent\<close> enqueues in a state \<open>u\<close> where a flush is
  in flight is appended to the queue and leaves the suspended sends, hence the batch in
  flight, untouched; once that flush has succeeded, the next flush takes a batch that ends
  with the event. Over every further run of handlers without \<open>clear()\<close>, the events of
  the batches taken from the queue so far, followed by the queue, are exactly the events
  there were, this event, and the events tracked since, each once and in call order: none
  is lost, duplicated or split from its place.
\<close>

theorem flush_takes_queue_atomically:
  assumes "eventQueue w \<noteq> []" and "\<not> isFlushingInProgress w"
    and "cfg_enabled (config u)" and "isFlushingInProgress u"
    and "pending u i = Some t" and "caller t = ByFlush" and "phase t = AwaitingFetch"
    and "Clear \<notin> snd ` set tr"
  shows "eventQueue (flush w) = [] \<and>
         pending (flush w) (nextId w) =
           Some \<lparr>batch = eventQueue w, retryCount = 0, phase = AwaitingFetch, caller = ByFlush\<rparr> \<and>
         requests (flush w) =
           requests w @ [\<lparr>via = Fetch, url = cfg_endpoint (config w), body = eventQueue w,
                           attempt = 0, origin = FromQueue\<rparr>] \<and>
         trackEvent e m v c a g u = u\<lparr>eventQueue := eventQueue u @ [make_event e u m v c a g]\<rparr> \<and>
         pending (flush (fetchSettled i (Resolved True) (trackEvent e m v c a g u))) (nextId u) =
           Some \<lparr>batch = eventQueue u @ [make_event e u m v c a g], retryCount = 0,
                 phase = AwaitingFetch, caller = ByFlush\<rparr> \<and>
         ledger (run tr (trackEvent e m v c a g u)) =
           ledger u @ [make_event e u m v c a g] @ tracked tr (trackEvent e m v c a g u)"
proof -
  let ?f = "flush w"
  have f: "?f = sendBatch_new ByFlush (eventQueue w) (w\<lparr>isFlushingInProgress := True, eventQueue := []\<rparr>)"
    using assms(1,2) by (simp add: flush_def)
  have q: "eventQueue ?f = []"
    by (simp add: f sendBatch_new_def sendBatch_def)
  have p: "pending ?f (nextId w) =
      Some \<lparr>batch = eventQueue w, retryCount = 0, phase = AwaitingFetch, caller = ByFlush\<rparr>"
    by (simp add: f sendBatch_new_def sendBatch_def)
  have rq: "requests ?f = requests w @ [\<lparr>via = Fetch, url = cfg_endpoint (config w),
      body = eventQueue w, attempt = 0, origin = FromQueue\<rparr>]"
    by (simp add: f sendBatch_new_def sendBatch_def origin_of_def)
  let ?ev = "make_event e u m v c a g"
  let ?u = "u\<lparr>eventQueue := eventQueue u @ [?ev]\<rparr>"
  have t: "trackEvent e m v c a g u = ?u"
    using assms(3,4) by (simp add: trackEvent_def Let_def flush_busy)
  have "fetchSettled i (Resolved True) ?u = resume ByFlush (?u\<lparr>pending := (pending ?u)(i := None)\<rparr>)"
    using assms(5,6,7) by (simp add: fetchSettled_def)
  then have n: "pending (flush (fetchSettled i (Resolved True) ?u)) (nextId u) =
      Some \<lparr>batch = eventQueue u @ [?ev], retryCount = 0, phase = AwaitingFetch, caller = ByFlush\<rparr>"
    by (simp add: flush_def sendBatch_new_def sendBatch_def)
  have "ledger ?u = ledger u @ [?ev]"
    by (simp add: ledger_def)
  then have r: "ledger (run tr ?u) = ledger u @ [?ev] @ tracked tr ?u"
    using ledger_run [OF assms(8), of ?u] by simp
  show ?thesis
    unfolding t using q p rq n r by blast
qed

lemma one_click_simps:
  "eventQueue (trackEvent browser ''Click'' None None NoAttributes None (instance_of defaults)) = [click]"
  "\<not> isFlushingInProgress (trackEvent browser ''Click'' None None NoAttributes None (instance_of defaults))"
  by (simp_all add: click_def trackEvent_def Let_def instance_of_simps resolve_def defaults_def)

lemma in_flight_enabled: "cfg_enabled (config in_flight)"
  by (simp add: in_flight_def trackEvent_def flush_def sendBatch_new_def sendBatch_def
      Let_def instance_of_simps resolve_def defaults_def)

text \<open>
  The theorem of C2: a flush of one event, an event tracked while it is in flight, then
  the success of the request and a second flush.
\<close>

theorem flush_takes_queue_atomically_witness:
  "eventQueue (trackEvent browser ''Click'' None None NoAttributes None (instance_of defaults)) \<noteq> [] \<and>
   \<not> isFlushingInProgress (trackEvent browser ''Click'' None None NoAttributes None (instance_of defaults)) \<and>
   cfg_enabled (config in_flight) \<and> isFlushingInProgress in_flight \<and>
   pending in_flight 0 =
     Some \<lparr>batch = [click], retryCount = 0, phase = AwaitingFetch, caller = ByFlush\<rparr> \<and>
   Clear \<notin> snd ` set [(browser, FetchSettled 0 (Resolved True)), (browser, Flush)] \<and>
   eventQueue (flush (trackEvent browser ''Click'' None None NoAttributes None (instance_of defaults))) = [] \<and>
   trackEvent browser ''Next'' None None NoAttributes None in_flight =
     in_flight\<lparr>eventQueue := eventQueue in_flight @
       [make_event browser in_flight ''Next'' None None NoAttributes None]\<rparr> \<and>
   pending (flush (fetchSettled 0 (Resolved True)
       (trackEvent browser ''Next'' None None NoAttributes None in_flight))) (nextId in_flight) =
     Some \<lparr>batch = eventQueue in_flight @
             [make_event browser in_flight ''Next'' None None NoAttributes None],
           retryCount = 0, phase = AwaitingFetch, caller = ByFlush\<rparr> \<and>
   ledger (run [(browser, FetchSettled 0 (Resolved True)), (browser, Flush)]
       (trackEvent browser ''Next'' None None NoAttributes None in_flight)) =
     ledger in_flight @ [make_event browser in_flight ''Next'' None None NoAttributes None] @
     tracked [(browser, FetchSettled 0 (Resolved True)), (browser, Flush)]
       (trackEvent browser ''Next'' None None NoAttributes None in_flight)"
proof -
  let ?w = "trackEvent browser ''Click'' None None NoAttributes None (instance_of defaults)"
  let ?t = "\<lparr>batch = [click], retryCount = 0, phase = AwaitingFetch, caller = ByFlush\<rparr>"
  have h1: "eventQueue ?w \<noteq> []" by (simp add: one_click_simps)
  have h2: "\<not> isFlushingInProgress ?w" by (rule one_click_simps)
  have h3: "cfg_enabled (config in_flight)" by (rule in_flight_enabled)
  have h4: "isFlushingInProgress in_flight" by (rule in_flight_simps)
  have h5: "pending in_flight 0 = Some ?t" by (rule in_flight_simps)
  have h6: "caller ?t = ByFlush" by simp
  have h7: "phase ?t = AwaitingFetch" by simp
  have h8: "Clear \<notin> snd ` set [(browser, FetchSettled 0 (Resolved True)), (browser, Flush)]"
    by simp
  show ?thesis
    using h1 h2 h3 h4 h5 h8
      flush_takes_queue_atomically [OF h1 h2 h3 h4 h5 h6 h7 h8, of browser "''Next''" None None NoAttributes None]
    by blast
qed

end
